theory Spec2Isabelle
  imports Main
begin

section \<open>Data model of package storage\<close>

text \<open>
  The store keeps pointers to \<open>Driver\<close> objects in a Go map and in an R-tree, and
  the caller keeps the pointers it passed in. Several properties depend on which
  object a pointer refers to, so objects live in an explicit heap: a list of
  objects addressed by position. Allocation appends, so a new address is always
  fresh; an address outside the heap plays the role of a nil pointer.

  The \<open>float64\<close> coordinates are only copied by the store, never computed with, so
  the model is polymorphic in their type \<open>'f\<close>. The Go \<open>int\<close> identifiers and the
  \<open>int64\<close> timestamps are only compared, so they are \<open>int\<close>.
\<close>

type_synonym addr = nat

record 'f Location =
  Lat :: 'f
  Lon :: 'f

record 'f Driver =
  ID :: int
  LastLocation :: "'f Location"
  Expiration :: int
  Locations :: "addr option"

datatype error = ErrDriverDoesNotExist | CouldNotCreateLRU | CouldNotRemoveItem

text \<open>What a call does: return nil, return an error value, or panic.\<close>

datatype outcome = Ok | Err error | Panic

subsection \<open>The history cache\<close>

text \<open>
  Modelled from the spec: package \<open>storage/lru\<close> (type \<open>LRU\<close>, \<open>lru.New\<close>,
  \<open>LRU.Add\<close>) is imported by the store but its source is absent. The spec describes
  a fixed-capacity recency buffer: \<open>Add\<close> inserts the newest sample and evicts the
  oldest one once the capacity is exceeded; a non-positive capacity is an invalid
  construction parameter. Samples are kept oldest first.
\<close>

record 'f LRU =
  capacity :: int
  samples :: "(int \<times> 'f Location) list"

definition lru_New :: "int \<Rightarrow> unit + 'f LRU" where
  "lru_New n = (if n \<le> 0 then Inl () else Inr \<lparr>capacity = n, samples = []\<rparr>)"

definition lru_Add :: "'f LRU \<Rightarrow> int \<Rightarrow> 'f Location \<Rightarrow> 'f LRU" where
  "lru_Add c k v =
    (let xs = samples c @ [(k, v)]
     in c\<lparr>samples := (if capacity c < int (length xs) then tl xs else xs)\<rparr>)"

subsection \<open>The spatial index\<close>

text \<open>
  Modelled from the spec: the R-tree is the external library \<open>rtreego\<close>. The spec
  describes it as holding one bounding box per inserted entity, computed when the
  entity is inserted, and as deleting the box of one specific entity by identity,
  reporting whether it found one. An entry is the address of the object together
  with the position its box was built around (\<open>Bounds\<close> is the square of half-width
  0.01 around \<open>LastLocation\<close>).
\<close>

type_synonym 'f rtree = "(addr \<times> 'f Location) list"

definition idx_Insert :: "'f rtree \<Rightarrow> addr \<Rightarrow> 'f Location \<Rightarrow> 'f rtree" where
  "idx_Insert t p bb = t @ [(p, bb)]"

fun idx_Delete :: "'f rtree \<Rightarrow> addr \<Rightarrow> bool \<times> 'f rtree" where
  "idx_Delete [] p = (False, [])"
| "idx_Delete (e # es) p =
    (if fst e = p then (True, es)
     else (fst (idx_Delete es p), e # snd (idx_Delete es p)))"

subsection \<open>The store and the heap around it\<close>

text \<open>
  \<open>drivers\<close>, \<open>locations\<close> and \<open>lruSize\<close> are the fields of \<open>DriverStorage\<close>;
  \<open>heap\<close> holds the \<open>Driver\<close> objects and \<open>caches\<close> the \<open>LRU\<close> objects that
  pointers refer to. The mutex makes every method one atomic step, so it has no
  field here.
\<close>

record 'f DriverStorage =
  drivers :: "int \<Rightarrow> addr option"
  locations :: "'f rtree"
  lruSize :: int
  heap :: "'f Driver list"
  caches :: "'f LRU list"

definition deref :: "'a list \<Rightarrow> addr \<Rightarrow> 'a option" where
  "deref h p = (if p < length h then Some (h ! p) else None)"

text \<open>\<open>Driver.Expired\<close>, with the clock reading \<open>now\<close> made a parameter.\<close>

definition Expired :: "'f Driver \<Rightarrow> int \<Rightarrow> bool" where
  "Expired d now = (if Expiration d = 0 then False else Expiration d < now)"

definition New :: "int \<Rightarrow> 'f DriverStorage" where
  "New n = \<lparr>drivers = (\<lambda>k. None), locations = [], lruSize = n, heap = [], caches = []\<rparr>"

text \<open>
  The caller's \<open>&Driver{ID: i, LastLocation: loc, Expiration: e}\<close>: a new object
  whose \<open>Locations\<close> pointer is nil. Its address is the old length of the heap.
\<close>

definition new_driver :: "'f DriverStorage \<Rightarrow> int \<Rightarrow> 'f Location \<Rightarrow> int \<Rightarrow> 'f DriverStorage" where
  "new_driver s i loc e =
    s\<lparr>heap := heap s @ [\<lparr>ID = i, LastLocation = loc, Expiration = e, Locations = None\<rparr>]\<rparr>"

text \<open>
  The part of \<open>Set\<close> after the \<open>if !ok\<close> block. \<open>d\<close> is the object the method
  updates and \<open>driver\<close> its argument; they may be the same object, so the fields
  of \<open>driver\<close> are read from the heap as it is at each statement. A nil
  \<open>Locations\<close> makes \<open>d.Locations.Add\<close> panic, after \<open>d.LastLocation\<close> was
  assigned.
\<close>

definition Set_update :: "'f DriverStorage \<Rightarrow> addr \<Rightarrow> addr \<Rightarrow> int \<Rightarrow> outcome \<times> 'f DriverStorage" where
  "Set_update s d driver now =
    (case (deref (heap s) d, deref (heap s) driver) of
       (Some dv, Some drv) \<Rightarrow>
         (let s1 = s\<lparr>heap := (heap s)[d := dv\<lparr>LastLocation := LastLocation drv\<rparr>]\<rparr>;
              dv1 = heap s1 ! d
          in (case Locations dv1 of
                None \<Rightarrow> (Panic, s1)
              | Some c \<Rightarrow>
                  (case deref (caches s1) c of
                     None \<Rightarrow> (Panic, s1)
                   | Some cache \<Rightarrow>
                       (let s2 = s1\<lparr>caches := (caches s1)[c := lru_Add cache now (LastLocation dv1)]\<rparr>;
                            s3 = s2\<lparr>heap := (heap s2)[d := (heap s2 ! d)\<lparr>Expiration := Expiration (heap s2 ! driver)\<rparr>]\<rparr>;
                            s4 = s3\<lparr>drivers := (drivers s3)(ID (heap s3 ! driver) \<mapsto> driver)\<rparr>
                        in (Ok, s4)))))
     | _ \<Rightarrow> (Panic, s))"

text \<open>\<open>DriverStorage.Set\<close>. \<open>lru.New\<close> allocates the cache at a fresh address.\<close>

definition Set :: "'f DriverStorage \<Rightarrow> addr \<Rightarrow> int \<Rightarrow> outcome \<times> 'f DriverStorage" where
  "Set s driver now =
    (case deref (heap s) driver of
       None \<Rightarrow> (Panic, s)
     | Some drv \<Rightarrow>
         (case drivers s (ID drv) of
            None \<Rightarrow>
              (case lru_New (lruSize s) of
                 Inl _ \<Rightarrow> (Err CouldNotCreateLRU, s)
               | Inr cache \<Rightarrow>
                   (let c = length (caches s);
                        s1 = s\<lparr>caches := caches s @ [cache]\<rparr>;
                        s2 = s1\<lparr>heap := (heap s1)[driver := drv\<lparr>Locations := Some c\<rparr>]\<rparr>;
                        s3 = s2\<lparr>locations := idx_Insert (locations s2) driver (LastLocation (heap s2 ! driver))\<rparr>
                    in Set_update s3 driver driver now))
          | Some d \<Rightarrow> Set_update s d driver now))"

text \<open>
  \<open>DriverStorage.Delete\<close>. The index needs the bounds of the object, so a nil
  pointer in the map would panic.
\<close>

definition Delete :: "'f DriverStorage \<Rightarrow> int \<Rightarrow> outcome \<times> 'f DriverStorage" where
  "Delete s i =
    (case drivers s i of
       None \<Rightarrow> (Err ErrDriverDoesNotExist, s)
     | Some driver \<Rightarrow>
         (case deref (heap s) driver of
            None \<Rightarrow> (Panic, s)
          | Some drv \<Rightarrow>
              (if fst (idx_Delete (locations s) driver)
               then (Ok, s\<lparr>locations := snd (idx_Delete (locations s) driver),
                           drivers := (drivers s)(ID drv := None)\<rparr>)
               else (Err CouldNotRemoveItem, s))))"

text \<open>\<open>DriverStorage.Get\<close>: the pointer stored under the key.\<close>

definition Get :: "'f DriverStorage \<Rightarrow> int \<Rightarrow> error + addr" where
  "Get s i = (case drivers s i of None \<Rightarrow> Inl ErrDriverDoesNotExist | Some driver \<Rightarrow> Inr driver)"

text \<open>
  \<open>DriverStorage.DeleteExpired\<close>. Go ranges over the map in an order of its own
  and reads the clock once per entry, so the loop takes the visits as a list of
  pairs (key, clock reading). An entry deleted before the loop reaches its key
  is not produced, which is the first case of the step.
\<close>

fun DeleteExpired :: "'f DriverStorage \<Rightarrow> (int \<times> int) list \<Rightarrow> outcome \<times> 'f DriverStorage" where
  "DeleteExpired s [] = (Ok, s)"
| "DeleteExpired s ((k, now) # vs) =
    (case drivers s k of
       None \<Rightarrow> DeleteExpired s vs
     | Some d \<Rightarrow>
         (case deref (heap s) d of
            None \<Rightarrow> (Panic, s)
          | Some dv \<Rightarrow>
              (if Expired dv now \<and> fst (idx_Delete (locations s) d)
               then DeleteExpired (s\<lparr>locations := snd (idx_Delete (locations s) d),
                                      drivers := (drivers s)(ID dv := None)\<rparr>) vs
               else DeleteExpired s vs)))"

subsection \<open>States the public operations can produce\<close>

text \<open>
  A store is built by \<open>New\<close>; after that the caller creates \<open>Driver\<close> values and
  calls \<open>Set\<close>, \<open>Delete\<close> and \<open>DeleteExpired\<close> in any order, with any clock
  readings. A panicking call is a step too: the deferred unlock still runs and
  the store stays in use.
\<close>

inductive reachable :: "'f DriverStorage \<Rightarrow> bool" where
  init: "reachable (New n)"
| alloc: "reachable s \<Longrightarrow> reachable (new_driver s i loc e)"
| set: "reachable s \<Longrightarrow> reachable (snd (Set s driver now))"
| delete: "reachable s \<Longrightarrow> reachable (snd (Delete s i))"
| sweep: "reachable s \<Longrightarrow> reachable (snd (DeleteExpired s vs))"

text \<open>
  What ties the map, the index and the heap together in every such state: a key
  maps to a live object carrying that key as its \<open>ID\<close>; every indexed object is
  live and its \<open>ID\<close> is a key of the map; no two index entries carry the same
  \<open>ID\<close>.
\<close>

definition store_inv :: "'f DriverStorage \<Rightarrow> bool" where
  "store_inv s \<longleftrightarrow>
     (\<forall>k p. drivers s k = Some p \<longrightarrow> p < length (heap s) \<and> ID (heap s ! p) = k) \<and>
     (\<forall>en \<in> set (locations s). fst en < length (heap s) \<and> drivers s (ID (heap s ! fst en)) \<noteq> None) \<and>
     distinct (map (\<lambda>en. ID (heap s ! fst en)) (locations s))"

subsection \<open>A concrete run: two reports for the same driver\<close>

text \<open>
  \<open>New(3)\<close>; a first report for driver 1 at (1, 1) expiring at 5, passed to \<open>Set\<close>
  at time 100 (object 0); a second report for driver 1 at (2, 2), passed to
  \<open>Set\<close> at time 200 (object 1).
\<close>

definition first_report :: "int DriverStorage" where
  "first_report = snd (Set (new_driver (New 3) 1 \<lparr>Lat = 1, Lon = 1\<rparr> 5) 0 100)"

definition second_report :: "int DriverStorage" where
  "second_report = snd (Set (new_driver first_report 1 \<lparr>Lat = 2, Lon = 2\<rparr> 5) 1 200)"

section \<open>Basic facts\<close>

lemmas model_defs =
  Set_def Set_update_def Delete_def Get_def New_def new_driver_def deref_def
  lru_New_def lru_Add_def idx_Insert_def Expired_def

lemma first_report_eval:
  "first_report =
     \<lparr>drivers = (\<lambda>k. None)(1 \<mapsto> 0),
      locations = [(0, \<lparr>Lat = 1, Lon = 1\<rparr>)],
      lruSize = 3,
      heap = [\<lparr>ID = 1, LastLocation = \<lparr>Lat = 1, Lon = 1\<rparr>, Expiration = 5, Locations = Some 0\<rparr>],
      caches = [\<lparr>capacity = 3, samples = [(100, \<lparr>Lat = 1, Lon = 1\<rparr>)]\<rparr>]\<rparr>"
  by (simp add: first_report_def model_defs)

lemma second_report_eval:
  "second_report =
     \<lparr>drivers = (\<lambda>k. None)(1 \<mapsto> 1),
      locations = [(0, \<lparr>Lat = 1, Lon = 1\<rparr>)],
      lruSize = 3,
      heap = [\<lparr>ID = 1, LastLocation = \<lparr>Lat = 2, Lon = 2\<rparr>, Expiration = 5, Locations = Some 0\<rparr>,
              \<lparr>ID = 1, LastLocation = \<lparr>Lat = 2, Lon = 2\<rparr>, Expiration = 5, Locations = None\<rparr>],
      caches = [\<lparr>capacity = 3, samples = [(100, \<lparr>Lat = 1, Lon = 1\<rparr>), (200, \<lparr>Lat = 2, Lon = 2\<rparr>)]\<rparr>]\<rparr>"
  by (simp add: second_report_def first_report_eval model_defs)


subsection \<open>The index\<close>

lemma idx_Delete_found: "fst (idx_Delete t p) \<longleftrightarrow> p \<in> fst ` set t"
  by (induction t) auto

lemma idx_Delete_subset: "set (snd (idx_Delete t p)) \<subseteq> set t"
  by (induction t) auto

lemma idx_Delete_distinct: "distinct (map f t) \<Longrightarrow> distinct (map f (snd (idx_Delete t p)))"
proof (induction t)
  case Nil
  then show ?case by simp
next
  case (Cons e es)
  have "f ` set (snd (idx_Delete es p)) \<subseteq> f ` set es"
    using idx_Delete_subset [of es p] by blast
  with Cons show ?case by auto
qed

lemma idx_Delete_removes:
  "distinct (map f t) \<Longrightarrow> (\<And>en. fst en = p \<Longrightarrow> f en = v) \<Longrightarrow> fst (idx_Delete t p) \<Longrightarrow>
   v \<notin> f ` set (snd (idx_Delete t p))"
proof (induction t)
  case Nil
  then show ?case by simp
next
  case (Cons e es)
  show ?case
  proof (cases "fst e = p")
    case True
    then have "f e = v" using Cons.prems(2) by blast
    with True Cons.prems(1) show ?thesis by auto
  next
    case False
    then have found: "fst (idx_Delete es p)" using Cons.prems(3) by simp
    then obtain en where en: "en \<in> set es" "fst en = p"
      by (auto simp: idx_Delete_found)
    then have "f en = v" using Cons.prems(2) by blast
    with en have "v \<in> f ` set es" by blast
    then have "f e \<noteq> v" using Cons.prems(1) by auto
    moreover have "v \<notin> f ` set (snd (idx_Delete es p))"
      using Cons.IH Cons.prems(1,2) found by simp
    ultimately show ?thesis using False by auto
  qed
qed

subsection \<open>What \<open>Set\<close> changes\<close>

lemma Set_update_frame:
  assumes "Set_update s d driver now = (r, s')"
  shows "length (heap s') = length (heap s) \<and> (\<forall>p. ID (heap s' ! p) = ID (heap s ! p))
       \<and> locations s' = locations s \<and> lruSize s' = lruSize s
       \<and> (if r = Ok then driver < length (heap s) \<and> drivers s' = (drivers s)(ID (heap s ! driver) \<mapsto> driver)
          else drivers s' = drivers s) \<and> r \<noteq> Err e"
  using assms
  by (auto simp: Set_update_def deref_def Let_def nth_list_update split: option.splits if_splits)

lemma Set_existing:
  assumes "deref (heap s) driver = Some drv" "drivers s (ID drv) = Some d"
  shows "Set s driver now = Set_update s d driver now"
  using assms by (simp add: Set_def)

lemma Set_create:
  assumes "deref (heap s) driver = Some drv" "drivers s (ID drv) = None" "0 < lruSize s"
  shows "fst (Set s driver now) = Ok"
    and "drivers (snd (Set s driver now)) = (drivers s)(ID drv \<mapsto> driver)"
    and "locations (snd (Set s driver now)) = locations s @ [(driver, LastLocation drv)]"
    and "length (heap (snd (Set s driver now))) = length (heap s)"
    and "ID (heap (snd (Set s driver now)) ! p) = ID (heap s ! p)"
    and "lruSize (snd (Set s driver now)) = lruSize s"
  using assms
  by (auto simp: model_defs Let_def nth_list_update nth_append split: option.splits if_splits)

lemma Set_refused:
  assumes "deref (heap s) driver = Some drv" "drivers s (ID drv) = None" "lruSize s \<le> 0"
  shows "Set s driver now = (Err CouldNotCreateLRU, s)"
  using assms by (simp add: Set_def lru_New_def)

lemma Set_nil: "deref (heap s) driver = None \<Longrightarrow> Set s driver now = (Panic, s)"
  by (simp add: Set_def)

subsection \<open>The invariant holds in every reachable state\<close>

lemma store_inv_New: "store_inv (New n)"
  by (simp add: store_inv_def New_def)


lemma store_inv_same_ids:
  assumes "store_inv s" "drivers s' = drivers s" "locations s' = locations s"
    and "length (heap s) \<le> length (heap s')"
    and "\<And>p. p < length (heap s) \<Longrightarrow> ID (heap s' ! p) = ID (heap s ! p)"
  shows "store_inv s'"
proof -
  have keys: "\<forall>k p. drivers s k = Some p \<longrightarrow> p < length (heap s) \<and> ID (heap s ! p) = k"
    and idx: "\<forall>en \<in> set (locations s). fst en < length (heap s) \<and> drivers s (ID (heap s ! fst en)) \<noteq> None"
    and dist: "distinct (map (\<lambda>en. ID (heap s ! fst en)) (locations s))"
    using assms(1) by (simp_all add: store_inv_def)
  have same: "map (\<lambda>en. ID (heap s' ! fst en)) (locations s) = map (\<lambda>en. ID (heap s ! fst en)) (locations s)"
    using idx assms(5) by (intro map_cong) auto
  have "\<forall>k p. drivers s' k = Some p \<longrightarrow> p < length (heap s') \<and> ID (heap s' ! p) = k"
    using keys assms(2,4,5) by fastforce
  moreover have "\<forall>en \<in> set (locations s'). fst en < length (heap s') \<and> drivers s' (ID (heap s' ! fst en)) \<noteq> None"
    using idx assms(2,3,4,5) by fastforce
  moreover have "distinct (map (\<lambda>en. ID (heap s' ! fst en)) (locations s'))"
    unfolding assms(3) same by (rule dist)
  ultimately show ?thesis by (simp add: store_inv_def)
qed

lemma store_inv_new_driver: "store_inv s \<Longrightarrow> store_inv (new_driver s i loc e)"
  by (rule store_inv_same_ids [of s]) (simp_all add: new_driver_def nth_append)

lemma store_inv_bind:
  assumes "store_inv s" "driver < length (heap s)"
    and "drivers s' = (drivers s)(ID (heap s ! driver) \<mapsto> driver)"
    and "locations s' = locations s \<and> drivers s (ID (heap s ! driver)) \<noteq> None
         \<or> locations s' = locations s @ [(driver, bb)] \<and> drivers s (ID (heap s ! driver)) = None"
    and "length (heap s') = length (heap s)"
    and "\<And>p. ID (heap s' ! p) = ID (heap s ! p)"
  shows "store_inv s'"
proof -
  have keys: "\<forall>k p. drivers s k = Some p \<longrightarrow> p < length (heap s) \<and> ID (heap s ! p) = k"
    and idx: "\<forall>en \<in> set (locations s). fst en < length (heap s) \<and> drivers s (ID (heap s ! fst en)) \<noteq> None"
    and dist: "distinct (map (\<lambda>en. ID (heap s ! fst en)) (locations s))"
    using assms(1) by (simp_all add: store_inv_def)
  have "\<forall>k p. drivers s' k = Some p \<longrightarrow> p < length (heap s') \<and> ID (heap s' ! p) = k"
    using keys assms(2,3,5,6) by auto
  moreover have "\<forall>en \<in> set (locations s'). fst en < length (heap s') \<and> drivers s' (ID (heap s' ! fst en)) \<noteq> None"
    using idx assms(2,3,4,5,6) by auto
  moreover have "distinct (map (\<lambda>en. ID (heap s' ! fst en)) (locations s'))"
  proof -
    have "drivers s (ID (heap s ! driver)) = None \<Longrightarrow>
          ID (heap s ! driver) \<notin> (\<lambda>en. ID (heap s ! fst en)) ` set (locations s)"
      using idx by force
    then show ?thesis using dist assms(4,6) by auto
  qed
  ultimately show ?thesis by (simp add: store_inv_def)
qed

lemma store_inv_Set: assumes "store_inv s" shows "store_inv (snd (Set s driver now))"
proof (cases "deref (heap s) driver")
  case None
  then show ?thesis using assms by (simp add: Set_nil)
next
  case (Some drv)
  then have live: "driver < length (heap s)" and drv: "drv = heap s ! driver"
    by (auto simp: deref_def split: if_splits)
  show ?thesis
  proof (cases "drivers s (ID drv)")
    case None
    show ?thesis
    proof (cases "0 < lruSize s")
      case True
      note c = Set_create [OF Some None True, of now]
      show ?thesis
        by (rule store_inv_bind [OF assms live, where bb = "LastLocation drv"])
           (use c None drv in simp_all)
    next
      case False
      then show ?thesis using assms Set_refused [OF Some None, of now] by simp
    qed
  next
    case inner: (Some d)
    obtain r s' where upd: "Set_update s d driver now = (r, s')" by (cases "Set_update s d driver now")
    note fr = Set_update_frame [OF upd]
    have eq: "snd (Set s driver now) = s'" using Set_existing [OF Some inner] upd by simp
    show ?thesis
    proof (cases "r = Ok")
      case True
      show ?thesis unfolding eq
        by (rule store_inv_bind [OF assms live, where bb = undefined])
           (use fr True inner drv in simp_all)
    next
      case False
      show ?thesis unfolding eq
        by (rule store_inv_same_ids [OF assms]) (use fr False in simp_all)
    qed
  qed
qed

lemma store_inv_remove:
  assumes "store_inv s" "drivers s k = Some d" "fst (idx_Delete (locations s) d)"
  shows "store_inv (s\<lparr>locations := snd (idx_Delete (locations s) d),
                      drivers := (drivers s)(ID (heap s ! d) := None)\<rparr>)"
proof -
  define f where "f = (\<lambda>en :: addr \<times> 'a Location. ID (heap s ! fst en))"
  define t where "t = snd (idx_Delete (locations s) d)"
  define v where "v = ID (heap s ! d)"
  have keys: "\<And>k p. drivers s k = Some p \<Longrightarrow> p < length (heap s) \<and> ID (heap s ! p) = k"
    and idx: "\<And>en. en \<in> set (locations s) \<Longrightarrow> fst en < length (heap s) \<and> drivers s (f en) \<noteq> None"
    and dist: "distinct (map f (locations s))"
    using assms(1) by (simp_all add: store_inv_def f_def)
  have sub: "set t \<subseteq> set (locations s)"
    unfolding t_def by (rule idx_Delete_subset)
  have fv: "\<And>en. fst en = d \<Longrightarrow> f en = v"
    by (simp add: f_def v_def)
  have notin: "v \<notin> f ` set t"
    unfolding t_def by (rule idx_Delete_removes [OF dist fv assms(3)])
  have d3: "distinct (map f t)"
    unfolding t_def by (rule idx_Delete_distinct [OF dist])
  have i2: "fst en < length (heap s) \<and> ((drivers s)(v := None)) (f en) \<noteq> None"
    if en: "en \<in> set t" for en
  proof -
    have mem: "en \<in> set (locations s)" using sub en by (rule subsetD)
    have "f en \<in> f ` set t" using en by (rule imageI)
    with notin have ne: "f en \<noteq> v" by metis
    have "((drivers s)(v := None)) (f en) = drivers s (f en)" using ne by simp
    with idx [OF mem] show ?thesis by metis
  qed
  have k1: "p < length (heap s) \<and> ID (heap s ! p) = k'"
    if "((drivers s)(v := None)) k' = Some p" for k' p
  proof -
    from that have "drivers s k' = Some p" by (cases "k' = v") simp_all
    then show ?thesis by (rule keys)
  qed
  define s' where "s' = s\<lparr>locations := t, drivers := (drivers s)(v := None)\<rparr>"
  have sel: "drivers s' = (drivers s)(v := None)" "locations s' = t" "heap s' = heap s"
    by (simp_all add: s'_def)
  have "store_inv s'"
    unfolding store_inv_def sel
  proof (intro conjI allI impI ballI)
    fix k' p assume "((drivers s)(v := None)) k' = Some p"
    from k1 [OF this] show "p < length (heap s)" "ID (heap s ! p) = k'" by blast+
  next
    fix en assume "en \<in> set t"
    from i2 [OF this] show "fst en < length (heap s)"
      "((drivers s)(v := None)) (ID (heap s ! fst en)) \<noteq> None"
      unfolding f_def by blast+
  next
    show "distinct (map (\<lambda>en. ID (heap s ! fst en)) t)" using d3 unfolding f_def .
  qed
  then show ?thesis unfolding s'_def t_def v_def .
qed

lemma store_inv_Delete: assumes "store_inv s" shows "store_inv (snd (Delete s i))"
  using assms store_inv_remove [OF assms]
  by (auto simp: Delete_def deref_def split: option.splits if_splits)

lemma store_inv_DeleteExpired: "store_inv s \<Longrightarrow> store_inv (snd (DeleteExpired s vs))"
proof (induction s vs rule: DeleteExpired.induct)
  case (1 s)
  then show ?case by simp
next
  case (2 s k now vs)
  show ?case
  proof (cases "drivers s k")
    case None
    then show ?thesis using 2 by simp
  next
    case (Some d)
    show ?thesis
    proof (cases "deref (heap s) d")
      case None
      then show ?thesis using Some 2 by simp
    next
      case inner: (Some dv)
      then have dv: "dv = heap s ! d" by (auto simp: deref_def split: if_splits)
      show ?thesis
      proof (cases "Expired dv now \<and> fst (idx_Delete (locations s) d)")
        case True
        then have "store_inv (s\<lparr>locations := snd (idx_Delete (locations s) d),
                      drivers := (drivers s)(ID dv := None)\<rparr>)"
          using store_inv_remove [OF "2.prems" Some] dv by simp
        moreover have "DeleteExpired s ((k, now) # vs) =
            DeleteExpired (s\<lparr>locations := snd (idx_Delete (locations s) d),
                      drivers := (drivers s)(ID dv := None)\<rparr>) vs"
          using Some inner True by simp
        ultimately show ?thesis using "2.IH"(2) [OF Some inner True] by simp
      next
        case False
        then have "DeleteExpired s ((k, now) # vs) = DeleteExpired s vs"
          using Some inner by auto
        then show ?thesis using "2.IH"(3) [OF Some inner False] "2.prems" by simp
      qed
    qed
  qed
qed

lemma reachable_store_inv: "reachable s \<Longrightarrow> store_inv s"
  by (induction rule: reachable.induct)
     (simp_all add: store_inv_New store_inv_new_driver store_inv_Set store_inv_Delete store_inv_DeleteExpired)

section \<open>The store after two reports for one driver\<close>

text \<open>
  C1. The objects in the map and the objects in the index should be the same at
  every moment. In the run of two reports for driver 1 they are not: the last
  statement of \<open>Set\<close> stores its argument under the key, so the map holds the
  second object (address 1) while the index still holds the first (address 0),
  which \<open>Set\<close> updated in place. \<open>Delete\<close> then asks the index to remove an
  object it never held and answers "could not remove item".
\<close>

theorem Set_twice_splits_map_and_index:
  "drivers second_report 1 = Some 1 \<and> map fst (locations second_report) = [0]
   \<and> fst (Delete second_report 1) = Err CouldNotRemoveItem"
  by (simp add: second_report_eval Delete_def deref_def)

text \<open>
  C2. The cache allocated at the first \<open>Set\<close> for an identifier should stay with
  the entity that \<open>Get\<close> returns. After the first report \<open>Get\<close> returns object 0,
  which owns cache 0. After the second report \<open>Get\<close> returns object 1, whose
  \<open>Locations\<close> is nil; cache 0, now holding both positions under the time stamps
  100 and 200, stays with object 0, which the map no longer reaches.
\<close>

theorem Set_twice_leaves_cache_behind:
  "Get first_report 1 = Inr 0 \<and> Locations (heap first_report ! 0) = Some 0
   \<and> Get second_report 1 = Inr 1 \<and> Locations (heap second_report ! 1) = None
   \<and> Locations (heap second_report ! 0) = Some 0
   \<and> samples (caches second_report ! 0) = [(100, \<lparr>Lat = 1, Lon = 1\<rparr>), (200, \<lparr>Lat = 2, Lon = 2\<rparr>)]"
  by (simp add: first_report_eval second_report_eval Get_def)

text \<open>
  C4. \<open>DeleteExpired\<close> should remove every entity whose expiration is not 0 and
  lies in the past. Driver 1 expires at 5; at time 1000 the object under key 1
  is expired, yet the sweep returns the store unchanged, because the index
  does not hold that object and refuses to delete it.
\<close>

theorem DeleteExpired_keeps_expired_after_update:
  "Expired (heap second_report ! 1) 1000
   \<and> DeleteExpired second_report [(1, 1000)] = (Ok, second_report)"
  by (simp add: second_report_eval Expired_def deref_def)

text \<open>
  What the sweep never does: an entity that is not expired at any clock reading
  taken for its key keeps its key, whatever else the sweep removes. This holds
  in every state that satisfies the invariant, and the sweep leaves all driver
  objects as they are.
\<close>

lemma DeleteExpired_keeps_live:
  assumes "store_inv s" "drivers s k = Some d"
    and "\<And>now. (k, now) \<in> set vs \<Longrightarrow> \<not> Expired (heap s ! d) now"
  shows "drivers (snd (DeleteExpired s vs)) k = Some d \<and> heap (snd (DeleteExpired s vs)) = heap s"
  using assms
proof (induction s vs rule: DeleteExpired.induct)
  case (1 s)
  then show ?case by simp
next
  case (2 s k' now' vs)
  have later: "\<And>now. (k, now) \<in> set vs \<Longrightarrow> \<not> Expired (heap s ! d) now"
    using "2.prems"(3) by simp
  show ?case
  proof (cases "drivers s k'")
    case None
    then show ?thesis using "2.IH"(1) [OF None "2.prems"(1,2) later] by simp
  next
    case (Some d')
    have live: "d' < length (heap s)" and key: "ID (heap s ! d') = k'"
      using "2.prems"(1) Some unfolding store_inv_def by blast+
    then have dv: "deref (heap s) d' = Some (heap s ! d')" by (simp add: deref_def)
    show ?thesis
    proof (cases "Expired (heap s ! d') now' \<and> fst (idx_Delete (locations s) d')")
      case True
      let ?s2 = "s\<lparr>locations := snd (idx_Delete (locations s) d'),
                    drivers := (drivers s)(ID (heap s ! d') := None)\<rparr>"
      have inv2: "store_inv ?s2"
        using store_inv_remove [OF "2.prems"(1) Some] True by simp
      have "k' \<noteq> k"
      proof
        assume "k' = k"
        then have "d' = d" using Some "2.prems"(2) by simp
        then show False using True "2.prems"(3) [of now'] \<open>k' = k\<close> by simp
      qed
      then have still: "drivers ?s2 k = Some d" using "2.prems"(2) key by simp
      have later2: "\<And>now. (k, now) \<in> set vs \<Longrightarrow> \<not> Expired (heap ?s2 ! d) now"
        using later by simp
      have step: "DeleteExpired s ((k', now') # vs) = DeleteExpired ?s2 vs"
        using Some dv True by simp
      from "2.IH"(2) [OF Some dv True inv2 still later2] show ?thesis
        unfolding step by simp
    next
      case False
      have step: "DeleteExpired s ((k', now') # vs) = DeleteExpired s vs"
        using Some dv False by auto
      from "2.IH"(3) [OF Some dv False "2.prems"(1,2) later] show ?thesis
        unfolding step by simp
    qed
  qed
qed

text \<open>
  A third report for the same driver finds the second object under the key,
  whose \<open>Locations\<close> is nil, and panics.
\<close>

lemma third_report_panics:
  "fst (Set (new_driver second_report 1 \<lparr>Lat = 3, Lon = 3\<rparr> 5) 2 300) = Panic"
  by (simp add: second_report_eval model_defs Let_def)

section \<open>When \<open>Set\<close> returns an error\<close>

text \<open>
  C7, as stated, says that \<open>Set\<close> on a constructed store never returns an error.
  \<open>New(0)\<close> constructs a store, and the first \<open>Set\<close> on it returns the error
  "could not create LRU".
\<close>

theorem New_zero_capacity_Set_fails:
  "fst (Set (new_driver (New 0) 1 \<lparr>Lat = 0, Lon = 0\<rparr> 0) 0 100 :: outcome \<times> int DriverStorage) = Err CouldNotCreateLRU"
  by (simp add: model_defs)

section \<open>\<open>Set\<close> followed by \<open>Get\<close>\<close>

lemma Set_update_Ok:
  assumes "Set_update s d driver now = (Ok, s')" "deref (heap s) driver = Some drv"
  shows "drivers s' (ID drv) = Some driver \<and> driver < length (heap s')
       \<and> ID (heap s' ! driver) = ID drv \<and> LastLocation (heap s' ! driver) = LastLocation drv"
  using assms
  by (auto simp: Set_update_def deref_def Let_def nth_list_update split: option.splits if_splits)

lemma Set_create_object:
  assumes "deref (heap s) driver = Some drv" "drivers s (ID drv) = None" "0 < lruSize s"
  shows "LastLocation (heap (snd (Set s driver now)) ! driver) = LastLocation drv"
  using assms
  by (auto simp: model_defs Let_def nth_list_update nth_append split: option.splits if_splits)

text \<open>
  C5. When \<open>Set\<close> returns nil for a driver object, \<open>Get\<close> for the \<open>ID\<close> of that
  object succeeds at once and returns an object that carries the same \<open>ID\<close> and
  the same \<open>LastLocation\<close> as the argument had. (It is the argument itself.)
\<close>

theorem Set_Get_roundtrip:
  assumes "deref (heap s) driver = Some drv" "Set s driver now = (Ok, s')"
  shows "Get s' (ID drv) = Inr driver \<and> deref (heap s') driver \<noteq> None
       \<and> ID (heap s' ! driver) = ID drv \<and> LastLocation (heap s' ! driver) = LastLocation drv"
proof (cases "drivers s (ID drv)")
  case None
  have pos: "0 < lruSize s"
  proof (rule ccontr)
    assume "\<not> 0 < lruSize s"
    then have "Set s driver now = (Err CouldNotCreateLRU, s)"
      using Set_refused [OF assms(1) None] by simp
    with assms(2) show False by simp
  qed
  note c = Set_create [OF assms(1) None pos, of now] Set_create_object [OF assms(1) None pos, of now]
  have live: "driver < length (heap s)" using assms(1) by (simp add: deref_def split: if_splits)
  have drv: "drv = heap s ! driver" using assms(1) by (simp add: deref_def split: if_splits)
  show ?thesis using c assms(2) live drv by (simp add: Get_def deref_def)
next
  case (Some d)
  then have "Set_update s d driver now = (Ok, s')"
    using Set_existing [OF assms(1) Some] assms(2) by simp
  from Set_update_Ok [OF this assms(1)] show ?thesis by (simp add: Get_def deref_def)
qed

theorem Set_Get_roundtrip_witness:
  "deref (heap (new_driver first_report 1 \<lparr>Lat = 2, Lon = 2\<rparr> 5)) 1
     = Some \<lparr>ID = 1, LastLocation = \<lparr>Lat = 2, Lon = 2\<rparr>, Expiration = 5, Locations = None\<rparr>
   \<and> Set (new_driver first_report 1 \<lparr>Lat = 2, Lon = 2\<rparr> 5) 1 200 = (Ok, second_report)
   \<and> Get second_report 1 = Inr 1
   \<and> ID (heap second_report ! 1) = 1
   \<and> LastLocation (heap second_report ! 1) = \<lparr>Lat = 2, Lon = 2\<rparr>"
proof -
  let ?s = "new_driver first_report 1 \<lparr>Lat = 2, Lon = 2\<rparr> 5"
  let ?d = "\<lparr>ID = 1, LastLocation = \<lparr>Lat = 2, Lon = 2\<rparr>, Expiration = 5, Locations = None\<rparr> :: int Driver"
  have h: "deref (heap ?s) 1 = Some ?d"
    by (simp add: first_report_eval new_driver_def deref_def)
  have "fst (Set ?s 1 200) = Ok"
    by (simp add: first_report_eval model_defs Let_def)
  then have run: "Set ?s 1 200 = (Ok, second_report)"
    by (simp add: second_report_def prod_eq_iff)
  from Set_Get_roundtrip [OF h run] h run show ?thesis by simp
qed

section \<open>\<open>Set\<close> and the index\<close>

text \<open>
  C8. \<open>Set\<close> for an identifier that is already a key of the map leaves the index
  as it was: no entry is inserted or deleted. The only change \<open>Set\<close> ever makes
  to the index is to append the argument, with its position, when the
  identifier was absent and the call succeeds; a call that does not succeed
  leaves the index alone.
\<close>

theorem Set_index_membership:
  assumes "deref (heap s) driver = Some drv"
  shows "(drivers s (ID drv) \<noteq> None \<longrightarrow> locations (snd (Set s driver now)) = locations s)
       \<and> (drivers s (ID drv) = None \<and> fst (Set s driver now) = Ok \<longrightarrow>
            locations (snd (Set s driver now)) = locations s @ [(driver, LastLocation drv)])
       \<and> (fst (Set s driver now) \<noteq> Ok \<longrightarrow> locations (snd (Set s driver now)) = locations s)"
proof (cases "drivers s (ID drv)")
  case None
  show ?thesis
  proof (cases "0 < lruSize s")
    case True
    from Set_create [OF assms None True, of now] None show ?thesis by simp
  next
    case False
    then show ?thesis using Set_refused [OF assms None, of now] None by simp
  qed
next
  case (Some d)
  obtain r s' where upd: "Set_update s d driver now = (r, s')" by (cases "Set_update s d driver now")
  from Set_update_frame [OF upd] Set_existing [OF assms Some, of now] upd Some
  show ?thesis by simp
qed

theorem Set_index_membership_witness:
  "deref (heap (new_driver first_report 1 \<lparr>Lat = 2, Lon = 2\<rparr> 5)) 1
     = Some \<lparr>ID = 1, LastLocation = \<lparr>Lat = 2, Lon = 2\<rparr>, Expiration = 5, Locations = None\<rparr>
   \<and> drivers (new_driver first_report 1 \<lparr>Lat = 2, Lon = 2\<rparr> 5) 1 \<noteq> None
   \<and> locations second_report = locations (new_driver first_report 1 \<lparr>Lat = 2, Lon = 2\<rparr> 5)"
proof -
  let ?s = "new_driver first_report 1 \<lparr>Lat = 2, Lon = 2\<rparr> 5"
  let ?d = "\<lparr>ID = 1, LastLocation = \<lparr>Lat = 2, Lon = 2\<rparr>, Expiration = 5, Locations = None\<rparr> :: int Driver"
  have h: "deref (heap ?s) 1 = Some ?d"
    by (simp add: first_report_eval new_driver_def deref_def)
  have present: "drivers ?s (ID ?d) \<noteq> None"
    by (simp add: first_report_eval new_driver_def)
  from Set_index_membership [OF h, of 200] present
  have "locations (snd (Set ?s 1 200)) = locations ?s" by blast
  then have "locations second_report = locations ?s" by (simp add: second_report_def)
  moreover have "drivers ?s 1 \<noteq> None" using present by simp
  ultimately show ?thesis using h by blast
qed

section \<open>Properties of reachable states\<close>

lemma reachable_first_report: "reachable first_report"
  unfolding first_report_def by (intro reachable.set reachable.alloc reachable.init)

lemma reachable_second_report: "reachable second_report"
  unfolding second_report_def by (intro reachable.set reachable.alloc reachable_first_report)

lemma Set_outcome:
  assumes "deref (heap s) driver = Some drv"
  shows "drivers s (ID drv) \<noteq> None \<Longrightarrow> fst (Set s driver now) \<noteq> Err e"
    and "drivers s (ID drv) = None \<Longrightarrow> 0 < lruSize s \<Longrightarrow> fst (Set s driver now) = Ok"
    and "drivers s (ID drv) = None \<Longrightarrow> lruSize s \<le> 0 \<Longrightarrow> Set s driver now = (Err CouldNotCreateLRU, s)"
proof -
  show "fst (Set s driver now) \<noteq> Err e" if "drivers s (ID drv) \<noteq> None"
  proof -
    from that obtain d where d: "drivers s (ID drv) = Some d" by blast
    obtain r s' where upd: "Set_update s d driver now = (r, s')" by (cases "Set_update s d driver now")
    from Set_update_frame [OF upd, of e] Set_existing [OF assms d, of now] upd show ?thesis by simp
  qed
  show "fst (Set s driver now) = Ok" if "drivers s (ID drv) = None" "0 < lruSize s"
    using Set_create(1) [OF assms that] .
  show "Set s driver now = (Err CouldNotCreateLRU, s)" if "drivers s (ID drv) = None" "lruSize s \<le> 0"
    using Set_refused [OF assms that] .
qed

text \<open>
  C7, amended. \<open>Set\<close> returns an error exactly when the identifier of its
  argument is absent from the map and the capacity of the store is not
  positive; when the identifier is absent and the capacity is positive, \<open>Set\<close>
  succeeds. \<open>New\<close> accepts every capacity and stores it unchecked, so a bad
  capacity shows up at the first \<open>Set\<close>, not at construction.
\<close>

theorem Set_error_condition:
  assumes "deref (heap s) driver = Some drv"
  shows "((\<exists>e. fst (Set s driver now) = Err e) \<longleftrightarrow> drivers s (ID drv) = None \<and> lruSize s \<le> 0)
       \<and> (drivers s (ID drv) = None \<and> 0 < lruSize s \<longrightarrow> fst (Set s driver now) = Ok)
       \<and> lruSize (New n :: 'f DriverStorage) = n"
proof -
  have "drivers s (ID drv) = None \<and> lruSize s \<le> 0" if "fst (Set s driver now) = Err e" for e
  proof (rule ccontr)
    assume "\<not> (drivers s (ID drv) = None \<and> lruSize s \<le> 0)"
    then consider "drivers s (ID drv) \<noteq> None" | "drivers s (ID drv) = None" "0 < lruSize s"
      by fastforce
    then show False
    proof cases
      case 1
      from Set_outcome(1) [OF assms 1, of now e] that show False by simp
    next
      case 2
      from Set_outcome(2) [OF assms 2, of now] that show False by simp
    qed
  qed
  moreover have "\<exists>e. fst (Set s driver now) = Err e" if "drivers s (ID drv) = None \<and> lruSize s \<le> 0"
    using Set_outcome(3) [OF assms, of now] that by simp
  moreover have "drivers s (ID drv) = None \<and> 0 < lruSize s \<longrightarrow> fst (Set s driver now) = Ok"
    using Set_outcome(2) [OF assms, of now] by blast
  moreover have "lruSize (New n :: 'f DriverStorage) = n" by (simp add: New_def)
  ultimately show ?thesis by blast
qed

theorem Set_error_condition_witness:
  "deref (heap (new_driver (New 3) 1 \<lparr>Lat = 1, Lon = 1\<rparr> 5 :: int DriverStorage)) 0
     = Some \<lparr>ID = 1, LastLocation = \<lparr>Lat = 1, Lon = 1\<rparr>, Expiration = 5, Locations = None\<rparr>
   \<and> fst (Set (new_driver (New 3) 1 \<lparr>Lat = 1, Lon = 1\<rparr> 5 :: int DriverStorage) 0 100) = Ok"
proof -
  let ?s = "new_driver (New 3) 1 \<lparr>Lat = 1, Lon = 1\<rparr> 5 :: int DriverStorage"
  have h: "deref (heap ?s) 0 = Some \<lparr>ID = 1, LastLocation = \<lparr>Lat = 1, Lon = 1\<rparr>, Expiration = 5, Locations = None\<rparr>"
    by (simp add: new_driver_def New_def deref_def)
  have a: "drivers ?s (ID \<lparr>ID = 1, LastLocation = \<lparr>Lat = 1, Lon = 1\<rparr>, Expiration = 5, Locations = None\<rparr>) = None
           \<and> 0 < lruSize ?s"
    by (simp add: new_driver_def New_def)
  have "fst (Set ?s 0 100) = Ok"
    using Set_error_condition [OF h, of 100 0] a by blast
  with h show ?thesis by blast
qed

text \<open>
  C10. When \<open>Set\<close> returns an error in a reachable state, the error is the one
  for a cache that could not be created, the whole state (map, index, driver
  objects and caches) is as before the call, the identifier of the argument is
  not a key of the map and no index entry carries it.
\<close>

theorem Set_error_leaves_store:
  fixes s :: "'f DriverStorage"
  assumes "reachable s" "fst (Set s driver now) = Err e"
  shows "snd (Set s driver now) = s \<and> e = CouldNotCreateLRU
       \<and> lru_New (lruSize s) = (Inl () :: unit + 'f LRU)
       \<and> (\<exists>drv. deref (heap s) driver = Some drv \<and> drivers s (ID drv) = None
              \<and> (\<forall>en \<in> set (locations s). ID (heap s ! fst en) \<noteq> ID drv))"
proof (cases "deref (heap s) driver")
  case None
  then show ?thesis using assms(2) by (simp add: Set_nil)
next
  case (Some drv)
  have absent: "drivers s (ID drv) = None"
    using Set_outcome(1) [OF Some, of now e] assms(2) by blast
  have cap: "lruSize s \<le> 0"
    using Set_outcome(2) [OF Some absent, of now] assms(2) by fastforce
  have eq: "Set s driver now = (Err CouldNotCreateLRU, s)"
    by (rule Set_outcome(3) [OF Some absent cap])
  have inv: "store_inv s" using assms(1) by (rule reachable_store_inv)
  have "ID (heap s ! fst en) \<noteq> ID drv" if "en \<in> set (locations s)" for en
  proof
    assume "ID (heap s ! fst en) = ID drv"
    moreover have "drivers s (ID (heap s ! fst en)) \<noteq> None"
      using inv that unfolding store_inv_def by blast
    ultimately show False using absent by simp
  qed
  then show ?thesis using eq assms(2) Some absent cap by (simp add: lru_New_def)
qed

theorem Set_error_leaves_store_witness:
  "reachable (new_driver (New 0) 7 \<lparr>Lat = 1, Lon = 1\<rparr> 0 :: int DriverStorage)
   \<and> fst (Set (new_driver (New 0) 7 \<lparr>Lat = 1, Lon = 1\<rparr> 0 :: int DriverStorage) 0 100) = Err CouldNotCreateLRU
   \<and> snd (Set (new_driver (New 0) 7 \<lparr>Lat = 1, Lon = 1\<rparr> 0 :: int DriverStorage) 0 100)
       = new_driver (New 0) 7 \<lparr>Lat = 1, Lon = 1\<rparr> 0"
proof -
  let ?s = "new_driver (New 0) 7 \<lparr>Lat = 1, Lon = 1\<rparr> 0 :: int DriverStorage"
  have r: "reachable ?s" by (intro reachable.alloc reachable.init)
  have e: "fst (Set ?s 0 100) = Err CouldNotCreateLRU" by (simp add: model_defs)
  from Set_error_leaves_store [OF r e] r e show ?thesis by blast
qed

text \<open>
  C3. In a reachable state, \<open>Delete\<close> answers \<open>ErrDriverDoesNotExist\<close> exactly when
  the identifier is not a key of the map, and then changes nothing. After a
  \<open>Delete\<close> that returns nil, \<open>Get\<close> for that identifier answers
  \<open>ErrDriverDoesNotExist\<close>. When the identifier is a key but the index does not
  find the object stored under it, \<open>Delete\<close> answers the other error, "could not
  remove item", and changes nothing; when the index does find it, \<open>Delete\<close>
  returns nil and the key and the index entry are gone.
\<close>

theorem Delete_contract:
  assumes "reachable s"
  shows "(fst (Delete s i) = Err ErrDriverDoesNotExist \<longleftrightarrow> drivers s i = None)
       \<and> (drivers s i = None \<longrightarrow> snd (Delete s i) = s)
       \<and> (fst (Delete s i) = Ok \<longrightarrow> Get (snd (Delete s i)) i = Inl ErrDriverDoesNotExist)
       \<and> (\<forall>d. drivers s i = Some d \<and> \<not> fst (idx_Delete (locations s) d) \<longrightarrow>
             fst (Delete s i) = Err CouldNotRemoveItem \<and> snd (Delete s i) = s)
       \<and> (\<forall>d. drivers s i = Some d \<and> fst (idx_Delete (locations s) d) \<longrightarrow>
             fst (Delete s i) = Ok \<and> drivers (snd (Delete s i)) i = None
             \<and> locations (snd (Delete s i)) = snd (idx_Delete (locations s) d))"
proof (cases "drivers s i")
  case None
  then show ?thesis by (simp add: Delete_def Get_def)
next
  case (Some d)
  have inv: "store_inv s" using assms by (rule reachable_store_inv)
  then have live: "d < length (heap s)" and key: "ID (heap s ! d) = i"
    using Some unfolding store_inv_def by blast+
  show ?thesis
  proof (cases "fst (idx_Delete (locations s) d)")
    case True
    then show ?thesis using Some live key by (simp add: Delete_def Get_def deref_def)
  next
    case False
    then show ?thesis using Some live key by (simp add: Delete_def Get_def deref_def)
  qed
qed

theorem Delete_contract_witness:
  "reachable first_report \<and> fst (Delete first_report 1) = Ok
   \<and> Get (snd (Delete first_report 1)) 1 = Inl ErrDriverDoesNotExist
   \<and> fst (Delete first_report 2) = Err ErrDriverDoesNotExist
   \<and> reachable second_report \<and> fst (Delete second_report 1) = Err CouldNotRemoveItem"
proof -
  have ok: "fst (Delete first_report 1) = Ok"
    by (simp add: first_report_eval Delete_def deref_def)
  have absent: "drivers first_report 2 = None"
    by (simp add: first_report_eval)
  have stuck: "drivers second_report 1 = Some 1 \<and> \<not> fst (idx_Delete (locations second_report) 1)"
    by (simp add: second_report_eval)
  from Delete_contract [OF reachable_first_report, of 1] ok
  have "Get (snd (Delete first_report 1)) 1 = Inl ErrDriverDoesNotExist" by blast
  moreover from Delete_contract [OF reachable_first_report, of 2] absent
  have "fst (Delete first_report 2) = Err ErrDriverDoesNotExist" by blast
  moreover from Delete_contract [OF reachable_second_report, of 1] stuck
  have "fst (Delete second_report 1) = Err CouldNotRemoveItem" by blast
  ultimately show ?thesis using ok reachable_first_report reachable_second_report by blast
qed

end
